theory Spec2Isabelle
  imports Main
begin

section \<open>Text\<close>

text \<open>
  Python strings are modelled as HOL strings. The character operations that the program
  applies (\<^verbatim>\<open>str.lower\<close>, \<^verbatim>\<open>str.upper\<close>, the regular expression class \<^verbatim>\<open>\s\<close>) are
  given on ASCII text: on the code points below 128 they agree with Python; other characters
  are left unchanged by the case mappings and are not white space.
\<close>

definition newline :: char where
  "newline = CHR 0x0A"

definition dquote :: char where
  "dquote = CHR 0x22"

text \<open>\<^verbatim>\<open>s.split(c)\<close> for a one-character separator: never the empty list.\<close>

fun split_on :: "char \<Rightarrow> string \<Rightarrow> string list" where
  "split_on sep [] = [[]]"
| "split_on sep (c # cs) =
     (if c = sep then [] # split_on sep cs
      else (case split_on sep cs of
              [] \<Rightarrow> [[c]]
            | l # ls \<Rightarrow> (c # l) # ls))"

text \<open>\<^verbatim>\<open>sep.join(xs)\<close>.\<close>

fun join_with :: "string \<Rightarrow> string list \<Rightarrow> string" where
  "join_with sep [] = []"
| "join_with sep [x] = x"
| "join_with sep (x # y # ys) = x @ sep @ join_with sep (y # ys)"

definition lower_char :: "char \<Rightarrow> char" where
  "lower_char c =
     (case map_of (zip ''ABCDEFGHIJKLMNOPQRSTUVWXYZ'' ''abcdefghijklmnopqrstuvwxyz'') c of
        None \<Rightarrow> c
      | Some d \<Rightarrow> d)"


definition lower :: "string \<Rightarrow> string" where
  "lower s = map lower_char s"


text \<open>
  The class \<^verbatim>\<open>\s\<close> of a Python \<^verbatim>\<open>str\<close> pattern, on ASCII: tab, line feed, vertical tab, form
  feed, carriage return, the separators 0x1C to 0x1F, and the space.
\<close>

definition is_space :: "char \<Rightarrow> bool" where
  "is_space c = (c \<in> set [CHR 0x09, CHR 0x0A, CHR 0x0B, CHR 0x0C, CHR 0x0D,
                            CHR 0x1C, CHR 0x1D, CHR 0x1E, CHR 0x1F, CHR 0x20])"

text \<open>\<^verbatim>\<open>s.startswith(p)\<close>, returning the rest of \<open>s\<close> after the prefix.\<close>

fun strip_prefix :: "string \<Rightarrow> string \<Rightarrow> string option" where
  "strip_prefix [] s = Some s"
| "strip_prefix (p # ps) [] = None"
| "strip_prefix (p # ps) (c # cs) = (if p = c then strip_prefix ps cs else None)"

definition startswith :: "string \<Rightarrow> string \<Rightarrow> bool" where
  "startswith s p = (strip_prefix p s \<noteq> None)"

section \<open>Paths\<close>

text \<open>
  A \<^verbatim>\<open>pathlib.Path\<close> on a POSIX system is its root (none, \<^verbatim>\<open>/\<close>, or \<^verbatim>\<open>//\<close> for exactly two
  leading slashes) and its list of components; two paths are equal when both agree.
  Parsing a string drops empty components and \<^verbatim>\<open>.\<close> components, and keeps \<^verbatim>\<open>..\<close>.
\<close>

datatype anchor = Relative | Root | DoubleRoot

datatype path = Path (anchor: anchor) (parts: "string list")

definition parse_anchor :: "string \<Rightarrow> anchor" where
  "parse_anchor s =
     (if startswith s ''//'' \<and> \<not> startswith s ''///'' then DoubleRoot
      else if startswith s ''/'' then Root
      else Relative)"

definition parse_path :: "string \<Rightarrow> path" where
  "parse_path s =
     Path (parse_anchor s) (filter (\<lambda>x. x \<noteq> [] \<and> x \<noteq> ''.'') (split_on (CHR ''/'') s))"

text \<open>\<^verbatim>\<open>p / s\<close> for a string \<open>s\<close>: an absolute \<open>s\<close> replaces \<open>p\<close>.\<close>

definition joinpath :: "path \<Rightarrow> string \<Rightarrow> path" where
  "joinpath p s =
     (if startswith s ''/'' then parse_path s
      else Path (anchor p) (parts p @ parts (parse_path s)))"

definition is_absolute :: "path \<Rightarrow> bool" where
  "is_absolute p = (anchor p \<noteq> Relative)"

text \<open>\<^verbatim>\<open>p.parent\<close>: a path with no component is its own parent.\<close>

definition parent :: "path \<Rightarrow> path" where
  "parent p = Path (anchor p) (butlast (parts p))"

text \<open>\<^verbatim>\<open>p.name\<close>: the last component, or the empty string.\<close>

definition name :: "path \<Rightarrow> string" where
  "name p = (if parts p = [] then [] else last (parts p))"

text \<open>
  \<^verbatim>\<open>p.suffix\<close> and \<^verbatim>\<open>p.stem\<close>: with \<open>i\<close> the index of the last dot of the name, the suffix is
  the name from \<open>i\<close> on when \<open>0 < i < len(name) - 1\<close>, and empty otherwise; the stem is the
  rest of the name.
\<close>

definition last_dot :: "string \<Rightarrow> nat option" where
  "last_dot n =
     (if CHR ''.'' \<in> set n
      then Some (length n - length (takeWhile (\<lambda>c. c \<noteq> CHR ''.'') (rev n)) - 1)
      else None)"

definition suffix :: "path \<Rightarrow> string" where
  "suffix p =
     (case last_dot (name p) of
        None \<Rightarrow> []
      | Some i \<Rightarrow> if 0 < i \<and> i < length (name p) - 1 then drop i (name p) else [])"


text \<open>\<^verbatim>\<open>str(p)\<close>, as the f-strings of the program print a path.\<close>

definition path_str :: "path \<Rightarrow> string" where
  "path_str p =
     (case anchor p of
        Relative \<Rightarrow> if parts p = [] then ''.'' else join_with ''/'' (parts p)
      | Root \<Rightarrow> ''/'' @ join_with ''/'' (parts p)
      | DoubleRoot \<Rightarrow> ''//'' @ join_with ''/'' (parts p))"

section \<open>The file system\<close>

text \<open>
  What the program asks of the file system during one run: whether a path exists
  (\<^verbatim>\<open>Path.exists\<close>), the absolute form of a path (\<^verbatim>\<open>Path.resolve\<close>), and the text of a file
  (\<^verbatim>\<open>open(p).read()\<close>, \<open>None\<close> when the call raises). A path may exist and not be
  readable (a directory, a file without permission).
\<close>

record filesystem =
  exists :: "path \<Rightarrow> bool"
  resolve :: "path \<Rightarrow> path"
  read_text :: "path \<Rightarrow> string option"

section \<open>Classifier\<close>

datatype FileType = HEADER | SOURCE | UNKNOWN

record ProcessedFile =
  path :: path
  content :: string
  type :: FileType

definition get_file_type :: "path \<Rightarrow> FileType" where
  "get_file_type p =
     (let ext = lower (suffix p) in
      if ext \<in> set [''.h'', ''.hpp'', ''.hxx'', ''.hh''] then HEADER
      else if ext \<in> set [''.c'', ''.cpp'', ''.cxx'', ''.cc''] then SOURCE
      else UNKNOWN)"

section \<open>The engine\<close>

record CppFusioner =
  include_paths :: "path list"
  processing_stack :: "path set"
  inline_headers :: bool
  inline_sources :: bool
  already_inlined :: "path set"

text \<open>The constructor \<^verbatim>\<open>CppFusioner(include_paths, inline_headers, inline_sources)\<close>.\<close>

definition init :: "string list \<Rightarrow> bool \<Rightarrow> bool \<Rightarrow> CppFusioner" where
  "init dirs ih isrc =
     \<lparr>include_paths = map parse_path dirs, processing_stack = {},
      inline_headers = ih, inline_sources = isrc, already_inlined = {}\<rparr>"

subsection \<open>Resolver\<close>

text \<open>The loop of \<^verbatim>\<open>find_include_file\<close> over the include paths.\<close>

fun search_include_paths :: "filesystem \<Rightarrow> path list \<Rightarrow> string \<Rightarrow> path option" where
  "search_include_paths fs [] include_name = None"
| "search_include_paths fs (include_path # rest) include_name =
     (let full_path = joinpath include_path include_name in
      if exists fs full_path then Some full_path
      else search_include_paths fs rest include_name)"

definition find_include_file ::
  "filesystem \<Rightarrow> CppFusioner \<Rightarrow> string \<Rightarrow> path \<Rightarrow> path option" where
  "find_include_file fs self include_name current_dir =
     (let local_path = joinpath current_dir include_name in
      if exists fs local_path then Some local_path
      else search_include_paths fs (include_paths self) include_name)"

subsection \<open>Recognising a directive\<close>

text \<open>
  \<^verbatim>\<open>re.match(r'#include\s*[<"]([^>"]+)[>"]', line)\<close>, returning group 1. The match is
  anchored at the start of the line. Each class is disjoint from what may follow it, so
  the greedy match is the only one: all white space, one opening character, the longest
  run of characters other than \<^verbatim>\<open>>\<close> and \<^verbatim>\<open>"\<close>, which must be non-empty and followed by one
  more character (then necessarily \<^verbatim>\<open>>\<close> or \<^verbatim>\<open>"\<close>).
\<close>

definition is_open :: "char \<Rightarrow> bool" where
  "is_open c = (c = CHR ''<'' \<or> c = dquote)"

definition is_close :: "char \<Rightarrow> bool" where
  "is_close c = (c = CHR ''>'' \<or> c = dquote)"

definition match_include :: "string \<Rightarrow> string option" where
  "match_include line =
     (case strip_prefix ''#include'' line of
        None \<Rightarrow> None
      | Some r \<Rightarrow>
          (case dropWhile is_space r of
             [] \<Rightarrow> None
           | d # r2 \<Rightarrow>
               if is_open d
               then (let include_name = takeWhile (\<lambda>c. \<not> is_close c) r2 in
                     if include_name \<noteq> [] \<and> dropWhile (\<lambda>c. \<not> is_close c) r2 \<noteq> []
                     then Some include_name else None)
               else None))"

subsection \<open>The decision for one line\<close>

text \<open>
  The branch that the body of the loop takes for a line, one constructor for each branch,
  named after the diagnostic that the branch prints on the error stream (the diagnostics
  themselves are not modelled). \<open>NoDirective\<close> is the final \<^verbatim>\<open>else\<close>, for a line that the
  pattern does not match.
\<close>

datatype action =
    NoDirective
  | PreserveSystemInclude
  | AlreadyInlined
  | InlineHeader path
  | InlineSource path
  | Skipping
  | NotInlining
  | CouldNotFind

definition line_action :: "filesystem \<Rightarrow> CppFusioner \<Rightarrow> path \<Rightarrow> string \<Rightarrow> action" where
  "line_action fs self abs_path line =
     (case match_include line of
        None \<Rightarrow> NoDirective
      | Some include_name \<Rightarrow>
          if CHR ''<'' \<in> set line then PreserveSystemInclude
          else
            (let include_path = find_include_file fs self include_name (parent abs_path) in
             if (case include_path of None \<Rightarrow> False | Some q \<Rightarrow> q \<in> already_inlined self)
             then AlreadyInlined
             else
               (case include_path of
                  None \<Rightarrow> CouldNotFind
                | Some q \<Rightarrow>
                    (let included_file_type = get_file_type q in
                     if inline_headers self \<and> included_file_type = HEADER then InlineHeader q
                     else if inline_sources self \<and>
                             (included_file_type = SOURCE \<or>
                              include_name = ''src/gtest-internal-inl.h'' \<or>
                              include_name = ''gtest/gtest-spi.h'')
                     then InlineSource q
                     else if startswith include_name ''gtest/'' \<and> include_name \<noteq> ''gtest/gtest.h''
                     then Skipping
                     else NotInlining))))"

subsection \<open>Processing\<close>

text \<open>
  The exceptions that can leave \<^verbatim>\<open>process_file\<close>: the one it raises itself, the failure of
  \<^verbatim>\<open>open\<close> or \<^verbatim>\<open>read\<close>, and the \<^verbatim>\<open>KeyError\<close> that \<^verbatim>\<open>set.remove\<close> raises for a missing
  element.
\<close>

datatype error =
    CircularDependency path
  | ReadError path
  | KeyError path

text \<open>
  A call either raises or returns, and leaves the object in a new state. \<open>None\<close> stands
  for a computation that has not finished within the recursion depth given to it.
\<close>

type_synonym 'a outcome = "((error + 'a) \<times> CppFusioner) option"

text \<open>The two inlining branches: the recursive call, the marker, the content, the set.\<close>

definition inline_file ::
  "(CppFusioner \<Rightarrow> path \<Rightarrow> ProcessedFile outcome) \<Rightarrow> CppFusioner \<Rightarrow> path \<Rightarrow> string list outcome" where
  "inline_file rec self include_path =
     (case rec self include_path of
        None \<Rightarrow> None
      | Some (Inl e, self') \<Rightarrow> Some (Inl e, self')
      | Some (Inr included_file, self') \<Rightarrow>
          Some (Inr [''// Inlined from: '' @ path_str include_path, content included_file],
                self'\<lparr>already_inlined := insert include_path (already_inlined self')\<rparr>))"

text \<open>The body of the loop: the lines appended to \<^verbatim>\<open>processed_lines\<close> for one line.\<close>

definition process_line ::
  "(CppFusioner \<Rightarrow> path \<Rightarrow> ProcessedFile outcome) \<Rightarrow> filesystem \<Rightarrow> path \<Rightarrow> CppFusioner \<Rightarrow> string
     \<Rightarrow> string list outcome" where
  "process_line rec fs abs_path self line =
     (case line_action fs self abs_path line of
        NoDirective \<Rightarrow> Some (Inr [line], self)
      | PreserveSystemInclude \<Rightarrow> Some (Inr [line], self)
      | AlreadyInlined \<Rightarrow> Some (Inr [], self)
      | InlineHeader q \<Rightarrow> inline_file rec self q
      | InlineSource q \<Rightarrow> inline_file rec self q
      | Skipping \<Rightarrow> Some (Inr [''//'' @ line], self)
      | NotInlining \<Rightarrow> Some (Inr [line], self)
      | CouldNotFind \<Rightarrow> Some (Inr [line], self))"

text \<open>The loop over the lines, with \<^verbatim>\<open>processed_lines\<close> as accumulator.\<close>

primrec process_lines ::
  "(CppFusioner \<Rightarrow> path \<Rightarrow> ProcessedFile outcome) \<Rightarrow> filesystem \<Rightarrow> path \<Rightarrow> CppFusioner
     \<Rightarrow> string list \<Rightarrow> string list \<Rightarrow> string list outcome" where
  "process_lines rec fs abs_path self processed_lines [] = Some (Inr processed_lines, self)"
| "process_lines rec fs abs_path self processed_lines (line # rest) =
     (case process_line rec fs abs_path self line of
        None \<Rightarrow> None
      | Some (Inl e, self') \<Rightarrow> Some (Inl e, self')
      | Some (Inr out, self') \<Rightarrow> process_lines rec fs abs_path self' (processed_lines @ out) rest)"

text \<open>The \<^verbatim>\<open>try\<close> block.\<close>

definition try_block ::
  "(CppFusioner \<Rightarrow> path \<Rightarrow> ProcessedFile outcome) \<Rightarrow> filesystem \<Rightarrow> path \<Rightarrow> CppFusioner
     \<Rightarrow> ProcessedFile outcome" where
  "try_block rec fs abs_path self =
     (case read_text fs abs_path of
        None \<Rightarrow> Some (Inl (ReadError abs_path), self)
      | Some text \<Rightarrow>
          (case process_lines rec fs abs_path self [] (split_on newline text) of
             None \<Rightarrow> None
           | Some (Inl e, self') \<Rightarrow> Some (Inl e, self')
           | Some (Inr processed_lines, self') \<Rightarrow>
               Some (Inr \<lparr>path = abs_path,
                          content = join_with [newline] processed_lines,
                          type = get_file_type abs_path\<rparr>, self')))"

text \<open>
  The \<^verbatim>\<open>finally\<close> block, run on return and on an exception alike: \<^verbatim>\<open>set.remove\<close> raises
  \<^verbatim>\<open>KeyError\<close>, in place of whatever was in flight, when the element is missing.
\<close>

definition finally_block :: "path \<Rightarrow> ProcessedFile outcome \<Rightarrow> ProcessedFile outcome" where
  "finally_block abs_path r =
     (case r of
        None \<Rightarrow> None
      | Some (out, self') \<Rightarrow>
          if abs_path \<in> processing_stack self'
          then Some (out, self'\<lparr>processing_stack := processing_stack self' - {abs_path}\<rparr>)
          else Some (Inl (KeyError abs_path), self'))"

text \<open>
  \<^verbatim>\<open>process_file\<close>. The first argument bounds the depth of the recursion: a call at depth
  0 does not finish. The recursion limit of the interpreter is not modelled.
\<close>

primrec process_file :: "nat \<Rightarrow> filesystem \<Rightarrow> CppFusioner \<Rightarrow> path \<Rightarrow> ProcessedFile outcome" where
  "process_file 0 fs self file_path = None"
| "process_file (Suc n) fs self file_path =
     (let abs_path = resolve fs file_path in
      if abs_path \<in> processing_stack self
      then Some (Inl (CircularDependency abs_path), self)
      else finally_block abs_path
             (try_block (process_file n fs) fs abs_path
                (self\<lparr>processing_stack := insert abs_path (processing_stack self)\<rparr>)))"

subsection \<open>Output assembler\<close>


section \<open>Notions used to state the properties\<close>

text \<open>
  The fields of the engine that are fixed at construction: the search path and the two
  switches.
\<close>

definition config_of :: "CppFusioner \<Rightarrow> CppFusioner" where
  "config_of self = self\<lparr>processing_stack := {}, already_inlined := {}\<rparr>"

text \<open>The path on which a branch of the loop calls \<^verbatim>\<open>process_file\<close>, if it does.\<close>

definition inline_target :: "action \<Rightarrow> path option" where
  "inline_target a =
     (case a of InlineHeader q \<Rightarrow> Some q | InlineSource q \<Rightarrow> Some q | _ \<Rightarrow> None)"

text \<open>
  The inclusion graph of a file system under an inlining policy: an edge from the absolute
  path \<open>a\<close> of a readable file to \<open>b\<close> when a line of \<open>a\<close> is a directive that the policy
  inlines (were its target not inlined before) and whose target has the absolute path \<open>b\<close>.
\<close>

definition include_graph :: "filesystem \<Rightarrow> CppFusioner \<Rightarrow> (path \<times> path) set" where
  "include_graph fs self =
     {(a, b). \<exists>text line q. read_text fs a = Some text \<and> line \<in> set (split_on newline text) \<and>
                inline_target (line_action fs (config_of self) a line) = Some q \<and>
                b = resolve fs q}"

text \<open>
  One call of \<^verbatim>\<open>process_file\<close> is a depth bound, the state of the engine on entry, and the
  argument. A call is the direct caller of another when it has passed the cycle check, has
  read its file, has processed the lines \<open>pre\<close> without an exception, and the next line makes
  it call \<^verbatim>\<open>process_file\<close> on \<open>q\<close> in the state \<open>self1\<close> reached by then.
\<close>

type_synonym call = "nat \<times> CppFusioner \<times> path"

definition call_path :: "filesystem \<Rightarrow> call \<Rightarrow> path" where
  "call_path fs c = (case c of (n, self, file_path) \<Rightarrow> resolve fs file_path)"

definition call_state :: "call \<Rightarrow> CppFusioner" where
  "call_state c = (case c of (n, self, file_path) \<Rightarrow> self)"

definition run_call :: "filesystem \<Rightarrow> call \<Rightarrow> ProcessedFile outcome" where
  "run_call fs c = (case c of (n, self, file_path) \<Rightarrow> process_file n fs self file_path)"

definition direct_call :: "filesystem \<Rightarrow> call \<Rightarrow> call \<Rightarrow> bool" where
  "direct_call fs c c' =
     (case c of (m, self, file_path) \<Rightarrow>
      case c' of (n, self1, q) \<Rightarrow>
        m = Suc n \<and> resolve fs file_path \<notin> processing_stack self \<and>
        (\<exists>text pre line post out.
           read_text fs (resolve fs file_path) = Some text \<and>
           split_on newline text = pre @ line # post \<and>
           process_lines (process_file n fs) fs (resolve fs file_path)
             (self\<lparr>processing_stack := insert (resolve fs file_path) (processing_stack self)\<rparr>)
             [] pre = Some (Inr out, self1) \<and>
           inline_target (line_action fs self1 (resolve fs file_path) line) = Some q))"


section \<open>Examples\<close>

text \<open>
  A file system given by its working directory and its regular files, each under its
  absolute path: no symbolic links, and every file readable.
\<close>

definition absolute :: "path \<Rightarrow> path \<Rightarrow> path" where
  "absolute cwd p = (if is_absolute p then p else Path (anchor cwd) (parts cwd @ parts p))"

definition fs_of :: "path \<Rightarrow> (path \<times> string) list \<Rightarrow> filesystem" where
  "fs_of cwd files =
     \<lparr>exists = (\<lambda>p. map_of files (absolute cwd p) \<noteq> None),
      resolve = absolute cwd,
      read_text = map_of files\<rparr>"

text \<open>The directive \<^verbatim>\<open>#include "f"\<close>.\<close>

definition quote_include :: "string \<Rightarrow> string" where
  "quote_include f = ''#include '' @ [dquote] @ f @ [dquote]"

text \<open>Two headers that include each other.\<close>

definition fs_cycle :: filesystem where
  "fs_cycle = fs_of (Path Root [''w''])
     [(Path Root [''w'', ''a.h''], quote_include ''b.h''),
      (Path Root [''w'', ''b.h''], quote_include ''a.h'')]"

text \<open>A header that includes another one twice.\<close>

definition fs_twice :: filesystem where
  "fs_twice = fs_of (Path Root [''w''])
     [(Path Root [''w'', ''foo.h''],
         ''int a;'' @ [newline] @ quote_include ''b.h'' @ [newline] @ quote_include ''b.h''),
      (Path Root [''w'', ''b.h''], ''int b;'')]"

text \<open>A header found only through a relative directory of the search path.\<close>

definition fs_search :: filesystem where
  "fs_search = fs_of (Path Root [''w''])
     [(Path Root [''w'', ''src'', ''a.h''], quote_include ''b.h''),
      (Path Root [''w'', ''inc'', ''b.h''], ''int b;''),
      (Path Root [''w'', ''alt'', ''b.h''], ''int c;'')]"

text \<open>A quote-delimited directive followed by a comment that holds an angle bracket.\<close>

definition commented_include :: string where
  "commented_include = quote_include ''b.h'' @ '' // <x>''"


text \<open>The chain of calls that the two headers including each other give rise to.\<close>

definition cycle_call0 :: call where
  "cycle_call0 = (3, init [''.''] True False, parse_path ''a.h'')"

definition cycle_call1 :: call where
  "cycle_call1 =
     (2, (init [''.''] True False)\<lparr>processing_stack := {Path Root [''w'', ''a.h'']}\<rparr>,
      Path Root [''w'', ''b.h''])"

definition cycle_call2 :: call where
  "cycle_call2 =
     (1, (init [''.''] True False)
           \<lparr>processing_stack := {Path Root [''w'', ''a.h''], Path Root [''w'', ''b.h'']}\<rparr>,
      Path Root [''w'', ''a.h''])"

section \<open>Auxiliary facts\<close>

subsection \<open>Matching and searching\<close>






subsection \<open>Case analysis of the engine\<close>

lemma inline_file_cases:
  assumes "inline_file rec self q = Some (out, self')"
  obtains (raised) e where "rec self q = Some (Inl e, self')" "out = Inl e"
  | (returned) pf s1 where "rec self q = Some (Inr pf, s1)"
      "out = Inr [''// Inlined from: '' @ path_str q, content pf]"
      "self' = s1\<lparr>already_inlined := insert q (already_inlined s1)\<rparr>"
  using assms unfolding inline_file_def
  by (auto split: option.splits sum.splits prod.splits)

lemma process_line_cases:
  assumes "process_line rec fs abs_path self line = Some (out, self')"
  obtains (same) ls where "inline_target (line_action fs self abs_path line) = None"
      "self' = self" "out = Inr ls"
  | (inline) q where "inline_target (line_action fs self abs_path line) = Some q"
      "inline_file rec self q = Some (out, self')"
  using assms unfolding process_line_def inline_target_def
  by (cases "line_action fs self abs_path line") auto

lemma process_lines_inv:
  assumes "process_lines rec fs abs_path self acc ls = Some (out, self')"
    and "I self"
    and "\<And>s q r s1. I s \<Longrightarrow> rec s q = Some (r, s1) \<Longrightarrow>
           \<exists>line\<in>set ls. inline_target (line_action fs s abs_path line) = Some q \<Longrightarrow>
           I s1 \<and> (\<forall>pf. r = Inr pf \<longrightarrow> I (s1\<lparr>already_inlined := insert q (already_inlined s1)\<rparr>))"
  shows "I self'"
  using assms
proof (induction ls arbitrary: self acc)
  case Nil
  then show ?case by simp
next
  case (Cons line rest)
  from Cons.prems(1) obtain r s1 where
    step: "process_line rec fs abs_path self line = Some (r, s1)"
    by (auto split: option.splits)
  have I1: "I s1"
    using step
  proof (cases rule: process_line_cases)
    case (same ls)
    then show ?thesis using Cons.prems(2) by simp
  next
    case (inline q)
    from inline(2) show ?thesis
    proof (cases rule: inline_file_cases)
      case (raised e)
      then show ?thesis using Cons.prems(3)[OF Cons.prems(2) raised(1)] inline(1) by auto
    next
      case (returned pf s2)
      then show ?thesis using Cons.prems(3)[OF Cons.prems(2) returned(1)] inline(1) by auto
    qed
  qed
  show ?case
  proof (cases r)
    case (Inl e)
    with Cons.prems(1) step have "self' = s1" by simp
    with I1 show ?thesis by simp
  next
    case (Inr ls)
    with Cons.prems(1) step have
      "process_lines rec fs abs_path s1 (acc @ ls) rest = Some (out, self')" by simp
    then show ?thesis
      using I1 Cons.prems(3) by (intro Cons.IH[of s1 "acc @ ls"]) auto
  qed
qed


lemma try_block_cases:
  assumes "try_block rec fs abs_path s1 = Some (out, s2)"
  obtains (unreadable) "read_text fs abs_path = None" "out = Inl (ReadError abs_path)" "s2 = s1"
  | (looped) body r where "read_text fs abs_path = Some body"
      "process_lines rec fs abs_path s1 [] (split_on newline body) = Some (r, s2)"
      "out = map_sum id (\<lambda>ls. \<lparr>path = abs_path, content = join_with [newline] ls,
                                  type = get_file_type abs_path\<rparr>) r"
  using assms unfolding try_block_def
  by (auto split: option.splits sum.splits prod.splits)

lemma finally_block_cases:
  assumes "finally_block abs_path r = Some (out, self')"
  obtains (removed) s2 where "r = Some (out, s2)" "abs_path \<in> processing_stack s2"
      "self' = s2\<lparr>processing_stack := processing_stack s2 - {abs_path}\<rparr>"
  | (missing) out0 where "r = Some (out0, self')" "abs_path \<notin> processing_stack self'"
      "out = Inl (KeyError abs_path)"
  using assms unfolding finally_block_def
  by (auto split: option.splits prod.splits if_splits)

lemma process_file_Suc_cases:
  assumes "process_file (Suc n) fs self file_path = Some (out, self')"
  obtains (cycle) "resolve fs file_path \<in> processing_stack self"
      "out = Inl (CircularDependency (resolve fs file_path))" "self' = self"
  | (entered) "resolve fs file_path \<notin> processing_stack self"
      "finally_block (resolve fs file_path)
         (try_block (process_file n fs) fs (resolve fs file_path)
            (self\<lparr>processing_stack := insert (resolve fs file_path) (processing_stack self)\<rparr>))
       = Some (out, self')"
  using assms by (auto simp: Let_def split: if_splits)

text \<open>What a call leaves unchanged.\<close>

lemma process_file_frame:
  "process_file n fs self file_path = Some (out, self') \<Longrightarrow>
   processing_stack self' = processing_stack self \<and>
   already_inlined self \<subseteq> already_inlined self' \<and>
   include_paths self' = include_paths self \<and>
   inline_headers self' = inline_headers self \<and>
   inline_sources self' = inline_sources self"
proof (induction n arbitrary: self file_path out self')
  case 0
  then show ?case by simp
next
  case (Suc n)
  define abs_path where "abs_path = resolve fs file_path"
  define I where "I = (\<lambda>s::CppFusioner. processing_stack s = insert abs_path (processing_stack self) \<and>
     already_inlined self \<subseteq> already_inlined s \<and>
     include_paths s = include_paths self \<and>
     inline_headers s = inline_headers self \<and>
     inline_sources s = inline_sources self)"
  from Suc.prems show ?case
  proof (cases rule: process_file_Suc_cases)
    case cycle
    then show ?thesis by simp
  next
    case entered
    define s1 where "s1 = self\<lparr>processing_stack := insert abs_path (processing_stack self)\<rparr>"
    have I1: "I s1" by (simp add: I_def s1_def)
    have rec: "I s1' \<and> (\<forall>pf. r = Inr pf \<longrightarrow> I (s1'\<lparr>already_inlined := insert q (already_inlined s1')\<rparr>))"
      if "I s" "process_file n fs s q = Some (r, s1')" for s q r s1'
      using Suc.IH[OF that(2)] that(1) by (auto simp: I_def)
    have tb: "I s2" if "try_block (process_file n fs) fs abs_path s1 = Some (r, s2)" for r s2
      using that
    proof (cases rule: try_block_cases)
      case unreadable
      then show ?thesis using I1 by simp
    next
      case (looped body r')
      show ?thesis
        by (rule process_lines_inv[OF looped(2), of I, OF I1]) (use rec in blast)
    qed
    from entered(2) show ?thesis
      unfolding abs_path_def[symmetric] s1_def[symmetric]
    proof (cases rule: finally_block_cases)
      case (removed s2)
      from tb[OF removed(1)] entered(1) removed(3) show ?thesis
        by (auto simp: I_def abs_path_def)
    next
      case (missing out0)
      from tb[OF missing(1)] missing(2) show ?thesis by (simp add: I_def)
    qed
  qed
qed




text \<open>What holds when a line makes the loop call \<^verbatim>\<open>process_file\<close>.\<close>

lemma inline_target_Some:
  assumes "inline_target (line_action fs self abs_path line) = Some q"
  shows "\<exists>nm. match_include line = Some nm \<and> CHR ''<'' \<notin> set line \<and>
           find_include_file fs self nm (parent abs_path) = Some q \<and>
           q \<notin> already_inlined self \<and>
           ((inline_headers self \<and> get_file_type q = HEADER) \<or>
            (inline_sources self \<and>
              (get_file_type q = SOURCE \<or> nm = ''src/gtest-internal-inl.h'' \<or> nm = ''gtest/gtest-spi.h'')))"
  using assms unfolding line_action_def inline_target_def Let_def
  by (auto split: option.splits if_splits action.splits)


lemma process_line_inline:
  "inline_target (line_action fs self abs_path line) = Some q \<Longrightarrow>
   process_line rec fs abs_path self line = inline_file rec self q"
  unfolding process_line_def inline_target_def
  by (cases "line_action fs self abs_path line") auto

lemma process_lines_frame:
  assumes "process_lines (process_file n fs) fs abs_path self acc ls = Some (out, self')"
  shows "processing_stack self' = processing_stack self \<and>
   already_inlined self \<subseteq> already_inlined self' \<and>
   include_paths self' = include_paths self \<and>
   inline_headers self' = inline_headers self \<and>
   inline_sources self' = inline_sources self"
  by (rule process_lines_inv[OF assms, of "\<lambda>s. processing_stack s = processing_stack self \<and>
   already_inlined self \<subseteq> already_inlined s \<and>
   include_paths s = include_paths self \<and>
   inline_headers s = inline_headers self \<and>
   inline_sources s = inline_sources self"])
     (auto dest!: process_file_frame)

subsection \<open>Absolute paths\<close>

lemma joinpath_absolute: "is_absolute d \<Longrightarrow> is_absolute (joinpath d s)"
  by (simp add: joinpath_def is_absolute_def parse_path_def parse_anchor_def)

lemma parent_absolute: "is_absolute p \<Longrightarrow> is_absolute (parent p)"
  by (simp add: parent_def is_absolute_def)

lemma search_include_paths_absolute:
  "\<forall>d\<in>set ds. is_absolute d \<Longrightarrow> search_include_paths fs ds nm = Some q \<Longrightarrow> is_absolute q"
  by (induction ds) (auto simp: Let_def joinpath_absolute split: if_splits)

lemma find_include_file_absolute:
  "is_absolute current_dir \<Longrightarrow> \<forall>d\<in>set (include_paths self). is_absolute d \<Longrightarrow>
   find_include_file fs self nm current_dir = Some q \<Longrightarrow> is_absolute q"
  by (auto simp: find_include_file_def Let_def joinpath_absolute
      dest: search_include_paths_absolute split: if_splits)

lemma process_file_absolute:
  assumes "\<forall>p. is_absolute (resolve fs p)"
  shows "\<forall>d\<in>set (include_paths self). is_absolute d \<Longrightarrow>
   \<forall>q\<in>already_inlined self. is_absolute q \<Longrightarrow>
   process_file n fs self file_path = Some (out, self') \<Longrightarrow>
   \<forall>q\<in>already_inlined self'. is_absolute q"
proof (induction n arbitrary: self file_path out self')
  case 0
  then show ?case by simp
next
  case (Suc n)
  define abs_path where "abs_path = resolve fs file_path"
  define s1 where "s1 = self\<lparr>processing_stack := insert abs_path (processing_stack self)\<rparr>"
  define I where "I = (\<lambda>s::CppFusioner. include_paths s = include_paths self \<and>
     (\<forall>q\<in>already_inlined s. is_absolute q))"
  have I1: "I s1" using Suc.prems(2) by (simp add: I_def s1_def)
  have dir: "is_absolute (parent abs_path)"
    using assms by (simp add: abs_path_def parent_absolute)
  from Suc.prems(3) show ?case
  proof (cases rule: process_file_Suc_cases)
    case cycle
    then show ?thesis using Suc.prems(2) by simp
  next
    case entered
    have rec: "I s' \<and> (\<forall>pf. r = Inr pf \<longrightarrow> I (s'\<lparr>already_inlined := insert q (already_inlined s')\<rparr>))"
      if "I s" "process_file n fs s q = Some (r, s')"
        "\<exists>line\<in>set ls. inline_target (line_action fs s abs_path line) = Some q" for s q r s' ls
    proof -
      from that(3) obtain nm where "find_include_file fs s nm (parent abs_path) = Some q"
        by (auto dest: inline_target_Some)
      moreover have "\<forall>d\<in>set (include_paths s). is_absolute d"
        using that(1) Suc.prems(1) by (simp add: I_def)
      ultimately have q: "is_absolute q"
        using dir by (blast intro: find_include_file_absolute)
      have "\<forall>q\<in>already_inlined s'. is_absolute q"
        using Suc.IH[OF _ _ that(2)] that(1) Suc.prems(1) by (simp add: I_def)
      moreover have "include_paths s' = include_paths self"
        using process_file_frame[OF that(2)] that(1) by (simp add: I_def)
      ultimately show ?thesis using q by (simp add: I_def)
    qed
    have tb: "I s2" if "try_block (process_file n fs) fs abs_path s1 = Some (r, s2)" for r s2
      using that
    proof (cases rule: try_block_cases)
      case unreadable
      then show ?thesis using I1 by simp
    next
      case (looped body r')
      show ?thesis
        by (rule process_lines_inv[OF looped(2), of I, OF I1]) (use rec in blast)
    qed
    from entered(2) show ?thesis
      unfolding abs_path_def[symmetric] s1_def[symmetric]
    proof (cases rule: finally_block_cases)
      case (removed s2)
      from tb[OF removed(1)] removed(3) show ?thesis by (simp add: I_def)
    next
      case (missing out0)
      from tb[OF missing(1)] show ?thesis by (simp add: I_def)
    qed
  qed
qed

subsection \<open>The call chain\<close>

lemma process_lines_append:
  "process_lines rec fs abs_path self acc (xs @ ys) =
     (case process_lines rec fs abs_path self acc xs of
        None \<Rightarrow> None
      | Some (Inl e, s) \<Rightarrow> Some (Inl e, s)
      | Some (Inr out, s) \<Rightarrow> process_lines rec fs abs_path s out ys)"
  by (induction xs arbitrary: self acc) (auto split: option.splits sum.splits prod.splits)

lemma direct_callI:
  assumes "resolve fs p \<notin> processing_stack self"
    and "read_text fs (resolve fs p) = Some body"
    and "split_on newline body = pre @ line # post"
    and "process_lines (process_file n fs) fs (resolve fs p)
           (self\<lparr>processing_stack := insert (resolve fs p) (processing_stack self)\<rparr>) [] pre
         = Some (Inr out, self1)"
    and "inline_target (line_action fs self1 (resolve fs p) line) = Some q"
  shows "direct_call fs (Suc n, self, p) (n, self1, q)"
  unfolding direct_call_def using assms by auto

lemma direct_callE:
  assumes "direct_call fs c c'"
  obtains n self p self1 q body pre line post out where
    "c = (Suc n, self, p)" "c' = (n, self1, q)"
    "resolve fs p \<notin> processing_stack self"
    "read_text fs (resolve fs p) = Some body"
    "split_on newline body = pre @ line # post"
    "process_lines (process_file n fs) fs (resolve fs p)
           (self\<lparr>processing_stack := insert (resolve fs p) (processing_stack self)\<rparr>) [] pre
         = Some (Inr out, self1)"
    "inline_target (line_action fs self1 (resolve fs p) line) = Some q"
  using assms unfolding direct_call_def
  by (cases c, cases c') auto

lemma direct_call_stack:
  assumes "direct_call fs c c'"
  shows "call_path fs c \<notin> processing_stack (call_state c) \<and>
         processing_stack (call_state c') = insert (call_path fs c) (processing_stack (call_state c))"
  using assms
proof (cases rule: direct_callE)
  case (1 n self p self1 q body pre line post out)
  from process_lines_frame[OF 1(6)] 1(1,2,3) show ?thesis
    by (simp add: call_path_def call_state_def)
qed

lemma call_chain_stack:
  "successively (direct_call fs) (c # cs) \<Longrightarrow>
   processing_stack (call_state (last (c # cs))) =
     processing_stack (call_state c) \<union> call_path fs ` set (butlast (c # cs))"
proof (induction cs arbitrary: c)
  case Nil
  then show ?case by simp
next
  case (Cons c' cs)
  from Cons.prems have d: "direct_call fs c c'" and rest: "successively (direct_call fs) (c' # cs)"
    by simp_all
  from Cons.IH[OF rest] direct_call_stack[OF d] show ?case by auto
qed

text \<open>An exception of the callee leaves the caller, whose stack entry is removed.\<close>

lemma direct_call_raises:
  assumes "direct_call fs c c'" and "run_call fs c' = Some (Inl e, s')"
  shows "map_option fst (run_call fs c) = Some (Inl e)"
  using assms(1)
proof (cases rule: direct_callE)
  case (1 n self p self1 q body pre line post out)
  define abs_path where "abs_path = resolve fs p"
  define s1 where "s1 = self\<lparr>processing_stack := insert abs_path (processing_stack self)\<rparr>"
  note pre = 1(6)[folded abs_path_def, folded s1_def]
  have callee: "process_file n fs self1 q = Some (Inl e, s')"
    using assms(2) 1(2) by (simp add: run_call_def)
  have "process_line (process_file n fs) fs abs_path self1 line = Some (Inl e, s')"
    using 1(7) callee by (simp add: process_line_inline inline_file_def abs_path_def)
  then have "process_lines (process_file n fs) fs abs_path s1 [] (split_on newline body)
    = Some (Inl e, s')"
    using pre by (simp add: 1(5) process_lines_append)
  then have tb: "try_block (process_file n fs) fs abs_path s1 = Some (Inl e, s')"
    using 1(4) by (simp add: try_block_def abs_path_def)
  have "processing_stack s' = processing_stack self1"
    using process_file_frame[OF callee] by simp
  also have "\<dots> = processing_stack s1"
    using process_lines_frame[OF pre] by simp
  finally have "abs_path \<in> processing_stack s'" by (simp add: s1_def)
  with tb have "finally_block abs_path (try_block (process_file n fs) fs abs_path s1)
    = Some (Inl e, s'\<lparr>processing_stack := processing_stack s' - {abs_path}\<rparr>)"
    by (simp add: finally_block_def)
  then show ?thesis
    using 1(1,3) by (simp add: run_call_def Let_def abs_path_def s1_def)
qed

lemma call_chain_raises:
  "successively (direct_call fs) (c # cs) \<Longrightarrow> run_call fs (last (c # cs)) = Some (Inl e, s') \<Longrightarrow>
   \<forall>a\<in>set (c # cs). map_option fst (run_call fs a) = Some (Inl e)"
proof (induction cs arbitrary: c)
  case Nil
  then show ?case by simp
next
  case (Cons c' cs)
  from Cons.prems have d: "direct_call fs c c'" and rest: "successively (direct_call fs) (c' # cs)"
    and l: "run_call fs (last (c' # cs)) = Some (Inl e, s')"
    by simp_all
  from Cons.IH[OF rest l] have all: "\<forall>a\<in>set (c' # cs). map_option fst (run_call fs a) = Some (Inl e)" .
  then obtain s'' where "run_call fs c' = Some (Inl e, s'')" by auto
  from direct_call_raises[OF d this] all show ?case by simp
qed

lemma cycle_chain: "successively (direct_call fs_cycle) [cycle_call0, cycle_call1, cycle_call2]"
proof -
  let ?self = "init [''.''] True False"
  let ?a = "Path Root [''w'', ''a.h'']"
  let ?b = "Path Root [''w'', ''b.h'']"
  let ?s1 = "?self\<lparr>processing_stack := {?a}\<rparr>"
  let ?s2 = "?self\<lparr>processing_stack := {?a, ?b}\<rparr>"
  have "direct_call fs_cycle (Suc 2, ?self, parse_path ''a.h'') (2, ?s1, ?b)"
  proof (rule direct_callI[where body = "quote_include ''b.h''" and pre = "[]"
        and line = "quote_include ''b.h''" and post = "[]" and out = "[]"])
    show "resolve fs_cycle (parse_path ''a.h'') \<notin> processing_stack ?self" by code_simp
    show "read_text fs_cycle (resolve fs_cycle (parse_path ''a.h'')) = Some (quote_include ''b.h'')"
      by code_simp
    show "split_on newline (quote_include ''b.h'') = [] @ quote_include ''b.h'' # []" by code_simp
    show "process_lines (process_file 2 fs_cycle) fs_cycle (resolve fs_cycle (parse_path ''a.h''))
       (?self\<lparr>processing_stack := insert (resolve fs_cycle (parse_path ''a.h''))
          (processing_stack ?self)\<rparr>) [] [] = Some (Inr [], ?s1)"
      by code_simp
    show "inline_target (line_action fs_cycle ?s1 (resolve fs_cycle (parse_path ''a.h''))
       (quote_include ''b.h'')) = Some ?b"
      by code_simp
  qed
  moreover have "direct_call fs_cycle (Suc 1, ?s1, ?b) (1, ?s2, ?a)"
  proof (rule direct_callI[where body = "quote_include ''a.h''" and pre = "[]"
        and line = "quote_include ''a.h''" and post = "[]" and out = "[]"])
    show "resolve fs_cycle ?b \<notin> processing_stack ?s1" by code_simp
    show "read_text fs_cycle (resolve fs_cycle ?b) = Some (quote_include ''a.h'')" by code_simp
    show "split_on newline (quote_include ''a.h'') = [] @ quote_include ''a.h'' # []" by code_simp
    show "process_lines (process_file 1 fs_cycle) fs_cycle (resolve fs_cycle ?b)
       (?s1\<lparr>processing_stack := insert (resolve fs_cycle ?b) (processing_stack ?s1)\<rparr>) [] []
       = Some (Inr [], ?s2)"
      by code_simp
    show "inline_target (line_action fs_cycle ?s2 (resolve fs_cycle ?b) (quote_include ''a.h''))
       = Some ?a"
      by code_simp
  qed
  ultimately show ?thesis
    by (simp add: cycle_call0_def cycle_call1_def cycle_call2_def numeral_3_eq_3 numeral_2_eq_2)
qed

subsection \<open>Termination\<close>




lemma include_graph_config:
  "config_of s = config_of self \<Longrightarrow> include_graph fs s = include_graph fs self"
  by (simp add: include_graph_def)







section \<open>Properties\<close>

text \<open>
  C1. When a chain of calls reaches a call whose resolved path is on the processing stack,
  that call (at any depth bound other than 0) raises the cyclic-dependency error for this
  path at once, without reading the file and without changing the engine; every call of
  the chain, the first one included, raises this same error; and when the chain started
  with an empty stack, the path is the path of a call of the chain before the last. Two
  headers that include each other are the example.
\<close>

theorem cycle_raises:
  "successively (direct_call fs) (c # cs) \<Longrightarrow>
   last (c # cs) = (Suc n, self, file_path) \<Longrightarrow>
   resolve fs file_path \<in> processing_stack self \<Longrightarrow>
   process_file (Suc n) fs self file_path
     = Some (Inl (CircularDependency (resolve fs file_path)), self) \<and>
   (\<forall>a\<in>set (c # cs).
      map_option fst (run_call fs a) = Some (Inl (CircularDependency (resolve fs file_path)))) \<and>
   (processing_stack (call_state c) = {} \<longrightarrow>
      resolve fs file_path \<in> call_path fs ` set (butlast (c # cs)))"
proof -
  assume chain: "successively (direct_call fs) (c # cs)"
    and l: "last (c # cs) = (Suc n, self, file_path)"
    and on: "resolve fs file_path \<in> processing_stack self"
  from on have r: "process_file (Suc n) fs self file_path
     = Some (Inl (CircularDependency (resolve fs file_path)), self)"
    by (simp add: Let_def)
  then have "run_call fs (last (c # cs)) = Some (Inl (CircularDependency (resolve fs file_path)), self)"
    unfolding l by (simp add: run_call_def)
  from call_chain_raises[OF chain this]
  have all: "\<forall>a\<in>set (c # cs).
      map_option fst (run_call fs a) = Some (Inl (CircularDependency (resolve fs file_path)))" .
  have "processing_stack self = processing_stack (call_state c) \<union> call_path fs ` set (butlast (c # cs))"
    using call_chain_stack[OF chain] unfolding l by (simp add: call_state_def)
  with on have "processing_stack (call_state c) = {} \<longrightarrow>
      resolve fs file_path \<in> call_path fs ` set (butlast (c # cs))"
    by auto
  with r all show ?thesis by blast
qed

theorem cycle_raises_witness:
  "successively (direct_call fs_cycle) [cycle_call0, cycle_call1, cycle_call2] \<and>
   Path Root [''w'', ''a.h''] \<in> processing_stack (call_state cycle_call2) \<and>
   map_option fst (process_file 3 fs_cycle (init [''.''] True False) (parse_path ''a.h'')) =
     Some (Inl (CircularDependency (Path Root [''w'', ''a.h''])))"
proof -
  let ?a = "Path Root [''w'', ''a.h'']"
  let ?s2 = "(init [''.''] True False)\<lparr>processing_stack := {?a, Path Root [''w'', ''b.h'']}\<rparr>"
  have l: "last [cycle_call0, cycle_call1, cycle_call2] = (Suc 0, ?s2, ?a)"
    by (simp add: cycle_call2_def)
  have r: "resolve fs_cycle ?a = ?a" by code_simp
  have on: "resolve fs_cycle ?a \<in> processing_stack ?s2" by code_simp
  from cycle_raises[OF cycle_chain l on]
  have "\<forall>c\<in>set [cycle_call0, cycle_call1, cycle_call2].
      map_option fst (run_call fs_cycle c) = Some (Inl (CircularDependency (resolve fs_cycle ?a)))"
    by blast
  then have "map_option fst (run_call fs_cycle cycle_call0) = Some (Inl (CircularDependency ?a))"
    using r by simp
  moreover have "?a \<in> processing_stack (call_state cycle_call2)" by code_simp
  ultimately show ?thesis
    using cycle_chain by (simp add: run_call_def cycle_call0_def)
qed







text \<open>
  C5. The program tests for an angle bracket anywhere in the line, not for the delimiter
  that the pattern matched: a quote-delimited directive whose line holds an angle bracket
  elsewhere takes the system-include branch and is never resolved, although the same
  directive alone is resolved and inlined.
\<close>

theorem quote_directive_taken_for_system_include:
  "match_include commented_include = Some ''b.h'' \<and>
   find_include_file fs_twice (init [''.''] True False) ''b.h'' (parent (Path Root [''w'', ''foo.h'']))
     = Some (Path Root [''w'', ''b.h'']) \<and>
   line_action fs_twice (init [''.''] True False) (Path Root [''w'', ''foo.h'']) (quote_include ''b.h'')
     = InlineHeader (Path Root [''w'', ''b.h'']) \<and>
   line_action fs_twice (init [''.''] True False) (Path Root [''w'', ''foo.h'']) commented_include
     = PreserveSystemInclude"
  by code_simp










text \<open>
  C10, as stated, fails: a header found through a relative directory of the search path is
  recorded in \<open>already_inlined\<close> under the relative path that the resolver returned.
\<close>

theorem relative_path_recorded:
  "process_file 3 fs_search (init [''inc'', ''alt''] True False) (parse_path ''src/a.h'') =
     Some (Inr \<lparr>path = Path Root [''w'', ''src'', ''a.h''],
                content = ''// Inlined from: inc/b.h'' @ [newline] @ ''int b;'',
                type = HEADER\<rparr>,
           (init [''inc'', ''alt''] True False)\<lparr>already_inlined := {Path Relative [''inc'', ''b.h'']}\<rparr>) \<and>
   \<not> is_absolute (Path Relative [''inc'', ''b.h''])"
  by code_simp

text \<open>
  C10, amended. The engine records a path as the resolver returned it. When every
  directory of the search path is absolute, and \<^verbatim>\<open>Path.resolve\<close> returns absolute paths,
  every member of \<open>already_inlined\<close> is absolute after a call, and after the loop over any
  lines of a file, given that the members before are.
\<close>

theorem already_inlined_absolute:
  "\<forall>p. is_absolute (resolve fs p) \<Longrightarrow>
   \<forall>d\<in>set (include_paths self). is_absolute d \<Longrightarrow>
   \<forall>q\<in>already_inlined self. is_absolute q \<Longrightarrow>
   (process_file n fs self file_path = Some (out, self') \<longrightarrow>
      (\<forall>q\<in>already_inlined self'. is_absolute q)) \<and>
   (process_lines (process_file n fs) fs (resolve fs file_path) self acc ls = Some (outs, self'') \<longrightarrow>
      (\<forall>q\<in>already_inlined self''. is_absolute q))"
proof -
  assume r: "\<forall>p. is_absolute (resolve fs p)"
    and d: "\<forall>d\<in>set (include_paths self). is_absolute d"
    and a: "\<forall>q\<in>already_inlined self. is_absolute q"
  define I where "I = (\<lambda>s::CppFusioner. include_paths s = include_paths self \<and>
     (\<forall>q\<in>already_inlined s. is_absolute q))"
  have I0: "I self" using a by (simp add: I_def)
  have dir: "is_absolute (parent (resolve fs file_path))"
    using r by (simp add: parent_absolute)
  have step: "I s' \<and> (\<forall>pf. x = Inr pf \<longrightarrow> I (s'\<lparr>already_inlined := insert q (already_inlined s')\<rparr>))"
    if "I s" "process_file n fs s q = Some (x, s')"
      "\<exists>line\<in>set ls. inline_target (line_action fs s (resolve fs file_path) line) = Some q"
    for s q x s'
  proof -
    from that(3) obtain nm where
      "find_include_file fs s nm (parent (resolve fs file_path)) = Some q"
      by (auto dest: inline_target_Some)
    moreover have ds: "\<forall>d\<in>set (include_paths s). is_absolute d"
      using that(1) d by (simp add: I_def)
    ultimately have q: "is_absolute q"
      using dir by (blast intro: find_include_file_absolute)
    have "\<forall>q\<in>already_inlined s'. is_absolute q"
      using process_file_absolute[OF r ds _ that(2)] that(1) by (simp add: I_def)
    moreover have "include_paths s' = include_paths self"
      using process_file_frame[OF that(2)] that(1) by (simp add: I_def)
    ultimately show ?thesis using q by (simp add: I_def)
  qed
  have "\<forall>q\<in>already_inlined self''. is_absolute q"
    if l: "process_lines (process_file n fs) fs (resolve fs file_path) self acc ls = Some (outs, self'')"
  proof -
    have "I self''"
      by (rule process_lines_inv[OF l, of I, OF I0]) (use step in blast)
    then show ?thesis by (simp add: I_def)
  qed
  then show ?thesis
    using process_file_absolute[OF r d a, of n file_path out self'] by blast
qed

theorem already_inlined_absolute_witness:
  "process_file 3 fs_search (init [''/w/inc'', ''/w/alt''] True False) (parse_path ''src/a.h'') =
     Some (Inr \<lparr>path = Path Root [''w'', ''src'', ''a.h''],
                content = ''// Inlined from: /w/inc/b.h'' @ [newline] @ ''int b;'',
                type = HEADER\<rparr>,
           (init [''/w/inc'', ''/w/alt''] True False)
             \<lparr>already_inlined := {Path Root [''w'', ''inc'', ''b.h'']}\<rparr>) \<and>
   is_absolute (Path Root [''w'', ''inc'', ''b.h''])"
proof -
  let ?self = "init [''/w/inc'', ''/w/alt''] True False"
  let ?self' = "?self\<lparr>already_inlined := {Path Root [''w'', ''inc'', ''b.h'']}\<rparr>"
  have r: "\<forall>p. is_absolute (resolve fs_search p)"
    by (simp add: fs_search_def fs_of_def absolute_def is_absolute_def)
  have d: "\<forall>d\<in>set (include_paths ?self). is_absolute d" by code_simp
  have a: "\<forall>q\<in>already_inlined ?self. is_absolute q" by (simp add: init_def)
  have p: "process_file 3 fs_search ?self (parse_path ''src/a.h'') =
     Some (Inr \<lparr>path = Path Root [''w'', ''src'', ''a.h''],
                content = ''// Inlined from: /w/inc/b.h'' @ [newline] @ ''int b;'',
                type = HEADER\<rparr>, ?self')"
    by code_simp
  from already_inlined_absolute[OF r d a, of 3 "parse_path ''src/a.h''" _ ?self'] p
  have "\<forall>q\<in>already_inlined ?self'. is_absolute q" by blast
  then have "is_absolute (Path Root [''w'', ''inc'', ''b.h''])" by simp
  with p show ?thesis by simp
qed

end
